theory Spec2Isabelle
  imports Main
begin

section \<open>Values handed to the logger\<close>

text \<open>
  The values a caller logs: primitives, dates, arrays and plain objects.
  A number is given by the text that string conversion yields for it (\<open>3.4\<close>, \<open>-1\<close>),
  a date by the text of \<open>toISOString()\<close>: the logger only ever converts them to text.
  An object is given by its own enumerable properties in the order \<open>_.forEach\<close>
  visits them.
\<close>

datatype prim = PUndefined | PNull | PBool bool | PNum string | PStr string

datatype jsdata =
    JPrim prim
  | JDate string
  | JArray "jsdata list"
  | JObject "(string \<times> jsdata) list"

datatype exn = Error string | TypeError

text \<open>String conversion of a primitive, as in \<open>'' + data\<close>.\<close>

fun to_string :: "prim \<Rightarrow> string" where
  "to_string PUndefined = ''undefined''"
| "to_string PNull = ''null''"
| "to_string (PBool b) = (if b then ''true'' else ''false'')"
| "to_string (PNum t) = t"
| "to_string (PStr s) = s"

text \<open>Decimal text of an array index, as in \<open>prefix + key\<close> for a numeric key.\<close>

fun digits :: "nat \<Rightarrow> string" where
  "digits n =
     (if n < 10 then [char_of (48 + n)]
      else digits (n div 10) @ [char_of (48 + n mod 10)])"

declare digits.simps [simp del]

section \<open>flatten\<close>

text \<open>
  \<open>flatten(data, prefix)\<close> folds \<open>_.forEach(data, ...)\<close> into a string.
  \<open>_.forEach\<close> visits an array by index, an object by its own enumerable properties,
  a string by its characters; a date has no enumerable property, and neither has any
  other primitive. \<open>visit\<close> is the callback: a primitive is a leaf; for every other
  value (object, array, date) \<open>_.isObject\<close> holds, and it is flattened under the
  extended prefix.
\<close>

fun flatten_chars :: "string \<Rightarrow> nat \<Rightarrow> string \<Rightarrow> string" where
  "flatten_chars [] i prefix = []"
| "flatten_chars (c # cs) i prefix =
     prefix @ digits i @ ''='' @ [c] @ '' '' @ flatten_chars cs (Suc i) prefix"

fun flatten :: "jsdata \<Rightarrow> string \<Rightarrow> string"
and flatten_elems :: "jsdata list \<Rightarrow> nat \<Rightarrow> string \<Rightarrow> string"
and flatten_props :: "(string \<times> jsdata) list \<Rightarrow> string \<Rightarrow> string"
and visit :: "jsdata \<Rightarrow> string \<Rightarrow> string \<Rightarrow> string"
where
  "flatten (JArray xs) prefix = flatten_elems xs 0 prefix"
| "flatten (JObject kvs) prefix = flatten_props kvs prefix"
| "flatten (JDate d) prefix = []"
| "flatten (JPrim p) prefix = (case p of PStr s \<Rightarrow> flatten_chars s 0 prefix | _ \<Rightarrow> [])"
| "flatten_elems [] i prefix = []"
| "flatten_elems (x # xs) i prefix = visit x (digits i) prefix @ flatten_elems xs (Suc i) prefix"
| "flatten_props [] prefix = []"
| "flatten_props ((k, v) # kvs) prefix = visit v k prefix @ flatten_props kvs prefix"
| "visit (JPrim p) key prefix = prefix @ key @ ''='' @ to_string p @ '' ''"
| "visit v key prefix = flatten v (prefix @ key @ ''.'')"

section \<open>The logger\<close>

text \<open>
  The options after the constructor's defaults. \<open>levels\<close> is the registry: names to
  severities, which are non-negative integers. \<open>timestamp\<close> is the truth value of
  \<open>opts.timestamp\<close>; the text that \<open>determineTimestampString\<close> yields comes from the
  clock or from the caller's provider and is an input of each call.
\<close>

record options =
  token :: string
  levels :: "string \<rightharpoonup> nat"
  flattenOpt :: bool
  timestamp :: bool
  usequotes :: bool
  secure :: bool
  host :: "string option"
  port :: "nat option"

definition default_levels :: "string \<rightharpoonup> nat" where
  "default_levels = map_of
     [(''debug'', 0), (''info'', 1), (''notice'', 2), (''warning'', 3),
      (''err'', 4), (''crit'', 5), (''alert'', 6), (''emerg'', 7)]"

definition reserved :: "string list" where
  "reserved = [''log'', ''end'', ''level'', ''levels'', ''on'', ''once'']"

definition omit :: "(string \<rightharpoonup> nat) \<Rightarrow> string list \<Rightarrow> (string \<rightharpoonup> nat)" where
  "omit m ks = (\<lambda>k. if k \<in> set ks then None else m k)"

text \<open>The registry the constructor builds: the caller's levels, or the default ones,
  without the reserved method names.\<close>

definition registry :: "(string \<rightharpoonup> nat) option \<Rightarrow> (string \<rightharpoonup> nat)" where
  "registry given = omit (case given of None \<Rightarrow> default_levels | Some m \<Rightarrow> m) reserved"

text \<open>
  \<open>opts.levels[name]\<close> is a property read on a plain object (the result of \<open>_.omit\<close>):
  a name that is not an own key is looked up on \<open>Object.prototype\<close>, whose members are
  functions (\<open>__proto__\<close> yields the prototype object itself). Only a name found in
  neither place reads as \<open>undefined\<close>.
\<close>

datatype level_value = Undefined | Num int | Inherited string

definition object_prototype :: "string list" where
  "object_prototype =
     [''constructor'', ''toString'', ''toLocaleString'', ''valueOf'', ''hasOwnProperty'',
      ''isPrototypeOf'', ''propertyIsEnumerable'', ''__proto__'', ''__defineGetter__'',
      ''__defineSetter__'', ''__lookupGetter__'', ''__lookupSetter__'']"

definition get_level :: "(string \<rightharpoonup> nat) \<Rightarrow> string \<Rightarrow> level_value" where
  "get_level reg name =
     (case reg name of
        Some s \<Rightarrow> Num (int s)
      | None \<Rightarrow> if name \<in> set object_prototype then Inherited name else Undefined)"

text \<open>
  The comparison \<open>currentLevel <= levelValue\<close>. Two numbers compare as numbers.
  \<open>undefined\<close> converts to NaN, and so does an inherited member next to a number (its
  primitive is the text of a function): the comparison is false. Two inherited members
  compare by their texts, code unit by code unit.
\<close>

definition member_text :: "string \<Rightarrow> string" where
  "member_text name =
     (if name = ''__proto__'' then ''[object Object]''
      else ''function '' @ (if name = ''constructor'' then ''Object'' else name)
           @ ''() { [native code] }'')"

fun str_less :: "string \<Rightarrow> string \<Rightarrow> bool" where
  "str_less [] [] = False"
| "str_less [] (y # ys) = True"
| "str_less (x # xs) [] = False"
| "str_less (x # xs) (y # ys) =
     (if x = y then str_less xs ys else (of_char x :: nat) < of_char y)"

fun js_le :: "level_value \<Rightarrow> level_value \<Rightarrow> bool" where
  "js_le (Num a) (Num b) = (a \<le> b)"
| "js_le (Inherited a) (Inherited b) = (\<not> str_less (member_text b) (member_text a))"
| "js_le a b = False"

text \<open>
  What the logger does to the outside, in order: an \<open>error\<close> notification, or a call of
  \<open>transport.consume\<close> with the entry.
\<close>

datatype logger_event = EmitError exn | CallConsume "string list"

text \<open>The logger's variables, its transport and the trace of what it did.\<close>

record 't logger =
  currentLevel :: level_value
  currentLevelName :: "string option"
  transport :: 't
  trace :: "logger_event list"

definition new_logger :: "'t \<Rightarrow> 't logger" where
  "new_logger t =
     \<lparr>currentLevel = Num (- 1), currentLevelName = None, transport = t, trace = []\<rparr>"

definition emit_error :: "exn \<Rightarrow> 't logger \<Rightarrow> 't logger" where
  "emit_error e st = st\<lparr>trace := trace st @ [EmitError e]\<rparr>"

text \<open>U+2028 in UTF-8, and the replacement of every newline by it.\<close>

definition line_separator :: string where
  "line_separator = [CHR 0xE2, CHR 0x80, CHR 0xA8]"

definition replace_newlines :: "string \<Rightarrow> string" where
  "replace_newlines s = concat (map (\<lambda>c. if c = CHR 0x0A then line_separator else [c]) s)"

text \<open>
  The conversion of \<open>args[1]\<close> to text, in the order of the source's tests: a date
  (\<open>_.isDate\<close>) becomes its ISO text; any other object or array (\<open>_.isObject\<close> or
  \<open>_.isArray\<close>) is flattened, or serialised when flattening is switched off; anything
  else is converted as a primitive. \<open>stringify\<close> stands for \<open>JSON.stringify\<close>.
\<close>

fun convert :: "options \<Rightarrow> (jsdata \<Rightarrow> string) \<Rightarrow> jsdata \<Rightarrow> string" where
  "convert opts stringify (JDate d) = d"
| "convert opts stringify (JArray xs) =
     (if flattenOpt opts then flatten (JArray xs) [] else stringify (JArray xs))"
| "convert opts stringify (JObject kvs) =
     (if flattenOpt opts then flatten (JObject kvs) [] else stringify (JObject kvs))"
| "convert opts stringify (JPrim p) = to_string p"

text \<open>
  \<open>log(argLevel, data)\<close>, called with its two arguments. \<open>transport_consume\<close> is the
  transport's method \<open>consume\<close>: it returns the transport's new state or raises.
  \<open>now\<close> is the timestamp text of this call. An unknown level is reported and the
  function goes on: the comparison with \<open>undefined\<close> then fails and nothing more
  happens.
\<close>

definition log ::
  "options \<Rightarrow> (jsdata \<Rightarrow> string) \<Rightarrow> (string list \<Rightarrow> 't \<Rightarrow> exn + 't) \<Rightarrow> string \<Rightarrow>
   string \<Rightarrow> jsdata \<Rightarrow> 't logger \<Rightarrow> 't logger" where
  "log opts stringify transport_consume now argLevel data st =
     (let st1 = (if get_level (levels opts) argLevel = Undefined
                 then emit_error (Error (''Unknown log level: '' @ argLevel)) st
                 else st);
          levelValue = get_level (levels opts) argLevel
      in if js_le (currentLevel st1) levelValue then
           (let text = replace_newlines (convert opts stringify data);
                args = (if timestamp opts then [now] else []) @ [argLevel, text];
                st2 = st1\<lparr>trace := trace st1 @ [CallConsume args]\<rparr>
            in case transport_consume args (transport st2) of
                 Inr t' \<Rightarrow> st2\<lparr>transport := t'\<rparr>
               | Inl err \<Rightarrow> emit_error err st2)
         else st1)"

text \<open>
  \<open>level(newLevelName)\<close>: the new state and either the returned name or the error
  raised. The argument is tested for truth first: without an argument, and with the
  empty string, the function only returns the stored name.
\<close>

definition level ::
  "options \<Rightarrow> string option \<Rightarrow> 't logger \<Rightarrow> 't logger \<times> (exn + string option)" where
  "level opts newLevelName st =
     (case newLevelName of
        None \<Rightarrow> (st, Inr (currentLevelName st))
      | Some n \<Rightarrow>
          if n = [] then (st, Inr (currentLevelName st))
          else if get_level (levels opts) n \<noteq> Undefined then
            (let st' = st\<lparr>currentLevel := get_level (levels opts) n,
                           currentLevelName := Some n\<rparr>
             in (st', Inr (currentLevelName st')))
          else (st, Inl (Error (''Unknown log level: '' @ n))))"

text \<open>
  The options of a logger constructed with a token only: the constructor's defaults.
\<close>

definition defaults :: "string \<Rightarrow> options" where
  "defaults tok =
     \<lparr>token = tok, levels = registry None, flattenOpt = True, timestamp = True,
      usequotes = False, secure = False, host = None, port = None\<rparr>"

text \<open>The transport of the repository's tests: \<open>consume\<close> appends the item to a list.\<close>

definition stub_consume :: "string list \<Rightarrow> string list list \<Rightarrow> exn + string list list" where
  "stub_consume item q = Inr (q @ [item])"

section \<open>The transport\<close>

text \<open>
  The transport's variables are \<open>queue\<close>, \<open>socket\<close>, \<open>connectingPhase\<close> and
  \<open>closingPhase\<close>; the last three start as \<open>null\<close>, which is \<open>None\<close>. Of a socket the code
  reads \<open>authorized\<close> and \<open>authorizationError\<close>, which the TLS layer sets.

  What the transport does to the outside is recorded in \<open>effects\<close>, in order:
  notifications through \<open>logger.emit\<close>, the opening of a socket, every \<open>socket.write\<close>
  and \<open>socket.end\<close> that returned, and the line printed by \<open>console.log\<close>. A
  notification is delivered to the logger's listeners, which return.

  \<open>socket.write\<close> and \<open>socket.end\<close> may raise. Whether they do is not up to the
  transport: \<open>write_outcomes\<close> and \<open>end_outcomes\<close> list the outcomes of the coming calls,
  in call order (\<open>None\<close>: the call returns; \<open>Some e\<close>: it raises \<open>e\<close>); once a list is used
  up, every further call returns.
\<close>

type_synonym entry = "string list"

datatype connecting_phase = CONNECTING | CONNECTED | DISCONNECTED

datatype closing_phase = CLOSING | CLOSED

datatype notification =
    NConnect string nat string
  | NLog string
  | NError exn
  | NEnd

datatype effect =
    Emit notification
  | OpenTls nat string
  | OpenPlain nat string
  | SocketWrite string
  | SocketEnd
  | ConsoleLog string

record sock =
  authorized :: bool
  authorizationError :: string

record transport_state =
  queue :: "entry list"
  socket :: "sock option"
  connectingPhase :: "connecting_phase option"
  closingPhase :: "closing_phase option"
  effects :: "effect list"
  write_outcomes :: "exn option list"
  end_outcomes :: "exn option list"

definition new_transport :: "exn option list \<Rightarrow> exn option list \<Rightarrow> transport_state" where
  "new_transport ws es =
     \<lparr>queue = [], socket = None, connectingPhase = None, closingPhase = None,
      effects = [], write_outcomes = ws, end_outcomes = es\<rparr>"

definition DEFAULT_LE_HOST :: string where
  "DEFAULT_LE_HOST = ''api.logentries.com''"

definition DEFAULT_LE_PORT :: nat where
  "DEFAULT_LE_PORT = 10000"

definition DEFAULT_LE_PORT_SECURE :: nat where
  "DEFAULT_LE_PORT_SECURE = 20000"

text \<open>\<open>item.join(sep)\<close> on an entry, whose fields are strings.\<close>

fun join :: "string \<Rightarrow> string list \<Rightarrow> string" where
  "join sep [] = []"
| "join sep [x] = x"
| "join sep (x # y # zs) = x @ sep @ join sep (y # zs)"

definition createLogLine :: "entry \<Rightarrow> options \<Rightarrow> string" where
  "createLogLine item opts =
     (if usequotes opts
      then token opts @ [CHR 0x22] @ join ([CHR 0x22] @ '' '' @ [CHR 0x22]) item
           @ [CHR 0x22, CHR 0x0A]
      else token opts @ join '' '' item @ [CHR 0x0A])"

definition emit :: "notification \<Rightarrow> transport_state \<Rightarrow> transport_state" where
  "emit n st = st\<lparr>effects := effects st @ [Emit n]\<rparr>"

definition console_log :: "string \<Rightarrow> transport_state \<Rightarrow> transport_state" where
  "console_log s st = st\<lparr>effects := effects st @ [ConsoleLog s]\<rparr>"

text \<open>
  \<open>socket.write(logLine)\<close>: what it raises, if anything, and the state after it.
  With no socket (\<open>null\<close>) the call is a \<open>TypeError\<close>.
\<close>

definition socket_write :: "string \<Rightarrow> transport_state \<Rightarrow> exn option \<times> transport_state" where
  "socket_write logLine st =
     (case socket st of
        None \<Rightarrow> (Some TypeError, st)
      | Some sk \<Rightarrow>
          (case write_outcomes st of
             [] \<Rightarrow> (None, st\<lparr>effects := effects st @ [SocketWrite logLine]\<rparr>)
           | None # os \<Rightarrow>
               (None, st\<lparr>effects := effects st @ [SocketWrite logLine], write_outcomes := os\<rparr>)
           | Some e # os \<Rightarrow> (Some e, st\<lparr>write_outcomes := os\<rparr>)))"

text \<open>
  \<open>closeSocket()\<close>: with a socket, \<open>socket.end()\<close> is called, an error it raises is
  reported, and the variable is set to \<open>null\<close>.
\<close>

definition closeSocket :: "transport_state \<Rightarrow> transport_state" where
  "closeSocket st =
     (case socket st of
        None \<Rightarrow> st
      | Some sk \<Rightarrow>
          (case end_outcomes st of
             [] \<Rightarrow> st\<lparr>effects := effects st @ [SocketEnd], socket := None\<rparr>
           | None # os \<Rightarrow>
               st\<lparr>effects := effects st @ [SocketEnd], end_outcomes := os, socket := None\<rparr>
           | Some e # os \<Rightarrow> (emit (NError e) (st\<lparr>end_outcomes := os\<rparr>))\<lparr>socket := None\<rparr>))"

text \<open>
  \<open>processItemsInQueue()\<close>: the loop runs while the queue is not empty. It takes the
  first item off the queue, announces the line and writes it; when that raises, it
  reports the error, puts the item back at the front, closes the socket, sets the phase
  to \<open>DISCONNECTED\<close> and leaves the loop.
\<close>

function processItemsInQueue :: "options \<Rightarrow> transport_state \<Rightarrow> transport_state" where
  "processItemsInQueue opts st =
     (case queue st of
        [] \<Rightarrow> st
      | item # rest \<Rightarrow>
          (let logLine = createLogLine item opts;
               st1 = emit (NLog logLine) (st\<lparr>queue := rest\<rparr>)
           in case socket_write logLine st1 of
                (None, st2) \<Rightarrow> processItemsInQueue opts st2
              | (Some e, st2) \<Rightarrow>
                  (closeSocket ((emit (NError e) st2)\<lparr>queue := item # queue st2\<rparr>))
                    \<lparr>connectingPhase := Some DISCONNECTED\<rparr>))"
  by pat_completeness auto
termination
proof (relation "measure (\<lambda>(opts, st). length (queue st))")
  show "wf (measure (\<lambda>(opts, st). length (queue st)))"
    by simp
next
  fix opts :: options and st :: transport_state and item rest logLine st1 x st2
  assume q: "queue st = item # rest"
    and s1: "st1 = emit (NLog logLine) (st\<lparr>queue := rest\<rparr>)"
    and w: "(x, st2) = socket_write logLine st1"
  have "queue (snd (socket_write logLine st1)) = queue st1"
    by (simp add: socket_write_def split: option.splits list.splits)
  moreover have "st2 = snd (socket_write logLine st1)"
    using w by (metis snd_conv)
  ultimately have "queue st2 = rest"
    using s1 by (simp add: emit_def)
  then show "((opts, st2), (opts, st)) \<in> measure (\<lambda>(opts, st). length (queue st))"
    using q by simp
qed

declare processItemsInQueue.simps [simp del]

text \<open>\<open>connect()\<close> and the handlers it registers on the new socket.\<close>

definition handleConnection :: "options \<Rightarrow> transport_state \<Rightarrow> transport_state" where
  "handleConnection opts st =
     (let st1 = processItemsInQueue opts (st\<lparr>connectingPhase := Some CONNECTED\<rparr>)
      in if closingPhase st1 \<noteq> None
         then (closeSocket st1)\<lparr>closingPhase := Some CLOSED\<rparr>
         else st1)"

definition handleClose :: "transport_state \<Rightarrow> transport_state" where
  "handleClose st = (closeSocket st)\<lparr>connectingPhase := Some DISCONNECTED\<rparr>"

definition handleError :: "exn \<Rightarrow> transport_state \<Rightarrow> transport_state" where
  "handleError e st = (closeSocket (emit (NError e) st))\<lparr>connectingPhase := Some DISCONNECTED\<rparr>"

text \<open>
  \<open>handleSecureConnection()\<close> reads \<open>socket.authorized\<close>: with no socket that is a
  \<open>TypeError\<close>, raised out of the handler.
\<close>

definition handleSecureConnection :: "options \<Rightarrow> transport_state \<Rightarrow> exn + transport_state" where
  "handleSecureConnection opts st =
     (case socket st of
        None \<Rightarrow> Inl TypeError
      | Some sk \<Rightarrow>
          if \<not> authorized sk then Inr (handleError (Error (authorizationError sk)) st)
          else Inr (handleConnection opts st))"

text \<open>
  \<open>connect()\<close>: \<open>opts.host || DEFAULT_LE_HOST\<close> and \<open>opts.port || ...\<close> take the default
  for a missing value and for a falsy one (the empty string, zero). A new socket is
  not yet authorized.
\<close>

definition connect :: "options \<Rightarrow> transport_state \<Rightarrow> transport_state" where
  "connect opts st =
     (let st1 = st\<lparr>connectingPhase := Some CONNECTING\<rparr>;
          h = (case host opts of
                 None \<Rightarrow> DEFAULT_LE_HOST
               | Some a \<Rightarrow> if a = [] then DEFAULT_LE_HOST else a);
          d = (if secure opts then DEFAULT_LE_PORT_SECURE else DEFAULT_LE_PORT);
          p = (case port opts of None \<Rightarrow> d | Some n \<Rightarrow> if n = 0 then d else n);
          st2 = emit (NConnect h p (token opts)) st1
      in st2\<lparr>effects := effects st2 @ [if secure opts then OpenTls p h else OpenPlain p h],
             socket := Some \<lparr>authorized = False, authorizationError = []\<rparr>\<rparr>)"

text \<open>\<open>consume(items)\<close>: the new state, or the error raised.\<close>

definition consume :: "options \<Rightarrow> entry \<Rightarrow> transport_state \<Rightarrow> exn + transport_state" where
  "consume opts items st =
     (if closingPhase st \<noteq> None then Inl (Error ''Transport is already closed'')
      else
        (let st1 = st\<lparr>queue := queue st @ [items]\<rparr>
         in Inr (if connectingPhase st1 = Some CONNECTED then processItemsInQueue opts st1
                 else if connectingPhase st1 \<noteq> Some CONNECTING then connect opts st1
                 else st1)))"

text \<open>\<open>end()\<close>.\<close>

definition transport_end :: "options \<Rightarrow> transport_state \<Rightarrow> transport_state" where
  "transport_end opts st =
     (if socket st \<noteq> None then
        (let st1 = st\<lparr>closingPhase := Some CLOSING\<rparr>;
             st2 = (if queue st1 \<noteq> [] then
                      (if connectingPhase st1 = Some CONNECTING
                       then console_log ''end while still connecting and data pending'' st1
                       else (closeSocket (processItemsInQueue opts st1))
                              \<lparr>closingPhase := Some CLOSED\<rparr>)
                    else (closeSocket st1)\<lparr>closingPhase := Some CLOSED\<rparr>)
         in emit NEnd st2)
      else st)"

text \<open>A sequence of \<open>consume\<close> calls, up to the first one that raises.\<close>

fun consume_all :: "options \<Rightarrow> entry list \<Rightarrow> transport_state \<Rightarrow> exn + transport_state" where
  "consume_all opts [] st = Inr st"
| "consume_all opts (items # others) st =
     (case consume opts items st of
        Inl e \<Rightarrow> Inl e
      | Inr st' \<Rightarrow> consume_all opts others st')"

text \<open>What the drain does for one entry whose write returns: the announcement and the write.\<close>

definition sent :: "options \<Rightarrow> entry \<Rightarrow> effect list" where
  "sent opts item = [Emit (NLog (createLogLine item opts)), SocketWrite (createLogLine item opts)]"

section \<open>Reading the trace\<close>

text \<open>The effects that open a socket, and the lines written, in order.\<close>

fun opens :: "effect \<Rightarrow> bool" where
  "opens (OpenTls p h) = True"
| "opens (OpenPlain p h) = True"
| "opens e = False"

fun written :: "effect list \<Rightarrow> string list" where
  "written [] = []"
| "written (SocketWrite l # es) = l # written es"
| "written (e # es) = written es"

text \<open>
  What \<open>closeSocket\<close> adds to the effects: nothing without a socket, otherwise the
  \<open>socket.end()\<close> that returned or the report of the error it raised.
\<close>

definition closing_effects :: "transport_state \<Rightarrow> effect list" where
  "closing_effects st =
     (case socket st of
        None \<Rightarrow> []
      | Some sk \<Rightarrow> (case end_outcomes st of Some e # os \<Rightarrow> [Emit (NError e)] | _ \<Rightarrow> [SocketEnd]))"

section \<open>Runs of the transport\<close>

text \<open>
  What happens to a transport: the calls of its two methods, and the events of its
  socket, each handled by the function that \<open>connect\<close> registered for it. The handler of
  \<open>connect\<close>, \<open>error\<close> and \<open>close\<close> is registered on every socket, the callback of
  \<open>tls.connect\<close> only on a secure one; before that callback runs, the TLS layer has
  stored the outcome of the authorization in the socket. An exception leaves the
  variables as they were.
\<close>

datatype input =
    Consume entry
  | End
  | SocketConnect
  | SocketSecureConnect bool string
  | SocketError exn
  | SocketClose

fun step :: "options \<Rightarrow> input \<Rightarrow> transport_state \<Rightarrow> transport_state" where
  "step opts (Consume items) st =
     (case consume opts items st of Inl e \<Rightarrow> st | Inr st' \<Rightarrow> st')"
| "step opts End st = transport_end opts st"
| "step opts SocketConnect st = handleConnection opts st"
| "step opts (SocketSecureConnect a err) st =
     (if secure opts then
        (case handleSecureConnection opts
                (st\<lparr>socket :=
                      map_option (\<lambda>sk. sk\<lparr>authorized := a, authorizationError := err\<rparr>)
                        (socket st)\<rparr>) of
           Inl e \<Rightarrow> st
         | Inr st' \<Rightarrow> st')
      else st)"
| "step opts (SocketError e) st = handleError e st"
| "step opts SocketClose st = handleClose st"

fun run :: "options \<Rightarrow> input list \<Rightarrow> transport_state \<Rightarrow> transport_state" where
  "run opts [] st = st"
| "run opts (i # is) st = run opts is (step opts i st)"

text \<open>
  In the phase \<open>CONNECTING\<close> the transport holds the socket of the attempt, unless it
  has been closed by \<open>end()\<close> with nothing pending.
\<close>

definition connecting_inv :: "transport_state \<Rightarrow> bool" where
  "connecting_inv st \<longleftrightarrow>
     (connectingPhase st = Some CONNECTING \<longrightarrow>
        socket st \<noteq> None \<or> closingPhase st = Some CLOSED \<and> queue st = [])"

section \<open>Example states\<close>

text \<open>A connected transport with three entries pending, whose second write will raise.\<close>

definition draining_example :: transport_state where
  "draining_example =
     \<lparr>queue = [[''A''], [''B''], [''C'']],
      socket = Some \<lparr>authorized = False, authorizationError = []\<rparr>,
      connectingPhase = Some CONNECTED, closingPhase = None, effects = [],
      write_outcomes = [None, Some (Error ''EPIPE'')], end_outcomes = []\<rparr>"

text \<open>Two entries consumed by a new transport: the connection attempt is in flight.\<close>

definition pending_example :: transport_state where
  "pending_example =
     run (defaults ''tok'') [Consume [''A''], Consume [''B'']] (new_transport [] [])"

text \<open>One entry consumed, then the socket reports an error.\<close>

definition refused_example :: transport_state where
  "refused_example =
     run (defaults ''tok'') [Consume [''A''], SocketError (Error ''ECONNREFUSED'')]
       (new_transport [] [])"


section \<open>The formatter's reference equations\<close>

lemma digits_0: "digits 0 = ''0''"
  by code_simp

lemma digits_1: "digits (Suc 0) = ''1''"
  by code_simp

text \<open>
  C9. In flatten mode the formatter yields \<open>a=1 b=2 \<close> for \<open>{a:"1", b:"2"}\<close>,
  \<open>0=a 1=b \<close> for \<open>["a","b"]\<close>, \<open>a=null \<close> for \<open>{a:null}\<close>, the empty string for \<open>{a:[]}\<close>
  and \<open>a.0=null \<close> for \<open>{a:[null]}\<close>. In general the properties are visited in the
  order of iteration: a primitive under the key \<open>k\<close> yields the prefix, \<open>k\<close>, \<open>=\<close>, its
  text and a space; a nested object or array is flattened under the prefix extended
  by \<open>k\<close> and a dot.
\<close>

theorem flatten_reference_equations:
  "convert (opts\<lparr>flattenOpt := True\<rparr>) stringify
      (JObject [(''a'', JPrim (PStr ''1'')), (''b'', JPrim (PStr ''2''))]) = ''a=1 b=2 ''
   \<and> convert (opts\<lparr>flattenOpt := True\<rparr>) stringify
      (JArray [JPrim (PStr ''a''), JPrim (PStr ''b'')]) = ''0=a 1=b ''
   \<and> convert (opts\<lparr>flattenOpt := True\<rparr>) stringify
      (JObject [(''a'', JPrim PNull)]) = ''a=null ''
   \<and> convert (opts\<lparr>flattenOpt := True\<rparr>) stringify
      (JObject [(''a'', JArray [])]) = []
   \<and> convert (opts\<lparr>flattenOpt := True\<rparr>) stringify
      (JObject [(''a'', JArray [JPrim PNull])]) = ''a.0=null ''
   \<and> flatten (JObject ((k, JPrim p) # kvs)) prefix =
       prefix @ k @ ''='' @ to_string p @ '' '' @ flatten (JObject kvs) prefix
   \<and> flatten (JObject ((k, JObject kvs') # kvs)) prefix =
       flatten (JObject kvs') (prefix @ k @ ''.'') @ flatten (JObject kvs) prefix
   \<and> flatten (JObject ((k, JArray xs) # kvs)) prefix =
       flatten (JArray xs) (prefix @ k @ ''.'') @ flatten (JObject kvs) prefix"
  by (simp add: digits_0 digits_1)

text \<open>
  C10. In flatten mode a date inside a structured value is a structure, not a leaf:
  it has no enumerable property, so it contributes nothing. \<open>{a: d}\<close> is formatted as
  the empty string for every date \<open>d\<close>; only a date logged as the value itself becomes
  its ISO text.
\<close>

theorem nested_date_contributes_nothing:
  "convert (opts\<lparr>flattenOpt := True\<rparr>) stringify (JObject [(''a'', JDate d)]) = []
   \<and> flatten (JObject ((k, JDate d) # kvs)) prefix = flatten (JObject kvs) prefix
   \<and> convert opts stringify (JDate d) = d"
  by simp

section \<open>Levels and filtering\<close>

lemma registry_None_simps:
  "registry None ''debug'' = Some 0" "registry None ''info'' = Some 1"
  "registry None ''err'' = Some 4" "registry None ''invalid'' = None"
  "registry None ''constructor'' = None" "registry None [] = None"
  by (simp_all add: registry_def omit_def default_levels_def reserved_def)

text \<open>
  C1. For a registered level \<open>L\<close> of severity \<open>s\<close>, any value and any threshold \<open>t\<close>
  (the variable \<open>currentLevel\<close>, which is \<open>-1\<close> as long as no call of \<open>level\<close> has set
  it), \<open>log(L, v)\<close> calls \<open>transport.consume\<close> with the formatted entry if and only if
  the threshold is unset or \<open>t \<le> s\<close>; otherwise the call changes nothing: no
  transmission and no error notification.
\<close>

theorem log_transmits_iff_threshold:
  assumes "levels opts L = Some s" and "currentLevel st = Num t"
  shows
    "((\<exists>entry. CallConsume entry
          \<in> set (drop (length (trace st)) (trace (log opts stringify transport_consume now L v st))))
      = (t = - 1 \<or> t \<le> int s))
     \<and> (if t = - 1 \<or> t \<le> int s
        then trace (log opts stringify transport_consume now L v st) =
               trace st
               @ CallConsume ((if timestamp opts then [now] else [])
                              @ [L, replace_newlines (convert opts stringify v)])
               # (case transport_consume ((if timestamp opts then [now] else [])
                                @ [L, replace_newlines (convert opts stringify v)])
                         (transport st) of
                    Inl err \<Rightarrow> [EmitError err]
                  | Inr t' \<Rightarrow> [])
        else log opts stringify transport_consume now L v st = st)"
proof -
  have lv: "get_level (levels opts) L = Num (int s)"
    using assms(1) by (simp add: get_level_def)
  have pass: "js_le (currentLevel st) (Num (int s)) = (t = - 1 \<or> t \<le> int s)"
    using assms(2) by auto
  show ?thesis
  proof (cases "t = - 1 \<or> t \<le> int s")
    case True
    then show ?thesis
      using lv pass
      by (simp add: log_def Let_def emit_error_def split: sum.splits)
  next
    case False
    then show ?thesis
      using lv pass by (simp add: log_def Let_def)
  qed
qed

theorem log_transmits_iff_threshold_witness:
  "levels (defaults ''tok'') ''info'' = Some 1
   \<and> currentLevel (new_logger []) = Num (- 1)
   \<and> trace (log (defaults ''tok'') (\<lambda>d. []) stub_consume ''T'' ''info''
               (JPrim (PStr ''t1'')) (new_logger [])) = [CallConsume [''T'', ''info'', ''t1'']]
   \<and> levels (defaults ''tok'') ''debug'' = Some 0
   \<and> currentLevel ((new_logger [])\<lparr>currentLevel := Num 4\<rparr>) = Num 4
   \<and> log (defaults ''tok'') (\<lambda>d. []) stub_consume ''T'' ''debug'' (JPrim (PStr ''t0''))
         ((new_logger [])\<lparr>currentLevel := Num 4\<rparr>) = (new_logger [])\<lparr>currentLevel := Num 4\<rparr>"
proof -
  have a: "levels (defaults ''tok'') ''info'' = Some 1"
    by (simp add: defaults_def registry_None_simps)
  have b: "currentLevel (new_logger []) = Num (- 1)"
    by (simp add: new_logger_def)
  have c: "levels (defaults ''tok'') ''debug'' = Some 0"
    by (simp add: defaults_def registry_None_simps)
  have d: "currentLevel ((new_logger [])\<lparr>currentLevel := Num 4\<rparr>) = Num 4"
    by simp
  from log_transmits_iff_threshold [OF a b, of "\<lambda>d. []" stub_consume "''T''" "JPrim (PStr ''t1'')"]
  have e: "trace (log (defaults ''tok'') (\<lambda>d. []) stub_consume ''T'' ''info''
               (JPrim (PStr ''t1'')) (new_logger [])) = [CallConsume [''T'', ''info'', ''t1'']]"
    by (simp add: defaults_def new_logger_def stub_consume_def replace_newlines_def)
  from log_transmits_iff_threshold [OF c d, of "\<lambda>d. []" stub_consume "''T''" "JPrim (PStr ''t0'')"]
  have f: "log (defaults ''tok'') (\<lambda>d. []) stub_consume ''T'' ''debug'' (JPrim (PStr ''t0''))
         ((new_logger [])\<lparr>currentLevel := Num 4\<rparr>) = (new_logger [])\<lparr>currentLevel := Num 4\<rparr>"
    by simp
  from a b c d e f show ?thesis by blast
qed

text \<open>
  C7, at the name \<open>constructor\<close>, which is not a key of the default registry: the
  property read finds the member inherited from \<open>Object.prototype\<close>, so no error is
  reported; the comparison of a numeric threshold with that member is false, so
  nothing is consumed. The call has no effect at all.
\<close>

theorem log_inherited_name_reports_nothing:
  "registry None ''constructor'' = None
   \<and> log (opts\<lparr>levels := registry None\<rparr>) stringify transport_consume now ''constructor'' v
         (new_logger tr) = new_logger tr
   \<and> log (opts\<lparr>levels := registry None\<rparr>) stringify transport_consume now ''constructor'' v
         (st\<lparr>currentLevel := Num t\<rparr>) = st\<lparr>currentLevel := Num t\<rparr>"
  by (simp add: registry_None_simps log_def get_level_def object_prototype_def
        new_logger_def Let_def)

text \<open>
  For a name that is neither a key of the registry nor a member of \<open>Object.prototype\<close>,
  \<open>log\<close> reports the unknown level once and does nothing else, whatever the
  threshold.
\<close>

lemma log_unknown_level:
  assumes "levels opts L = None" and "L \<notin> set object_prototype"
  shows "log opts stringify transport_consume now L v st =
           st\<lparr>trace := trace st @ [EmitError (Error (''Unknown log level: '' @ L))]\<rparr>"
proof -
  have "get_level (levels opts) L = Undefined"
    using assms by (simp add: get_level_def)
  then show ?thesis
    by (cases "currentLevel st") (simp_all add: log_def Let_def emit_error_def)
qed




section \<open>Draining the queue\<close>

lemma closeSocket_fields [simp]:
  "socket (closeSocket st) = None"
  "queue (closeSocket st) = queue st"
  "connectingPhase (closeSocket st) = connectingPhase st"
  "closingPhase (closeSocket st) = closingPhase st"
  "write_outcomes (closeSocket st) = write_outcomes st"
  "effects (closeSocket st) = effects st @ closing_effects st"
  by (simp_all add: closeSocket_def closing_effects_def emit_def split: option.splits list.splits)

lemma closing_effects_eq:
  "socket a = socket b \<Longrightarrow> end_outcomes a = end_outcomes b \<Longrightarrow>
   closing_effects a = closing_effects b"
  by (cases "socket b") (simp_all add: closing_effects_def)

lemma written_append [simp]: "written (xs @ ys) = written xs @ written ys"
  by (induction xs rule: written.induct) simp_all

lemma written_sent [simp]:
  "written (concat (map (sent opts) items)) = map (\<lambda>item. createLogLine item opts) items"
  by (induction items) (simp_all add: sent_def)

lemma written_closing_effects [simp]: "written (closing_effects st) = []"
  by (simp add: closing_effects_def split: option.splits list.splits)

text \<open>When no write raises, the drain writes the whole queue in order and empties it.\<close>

lemma drain_all:
  assumes "socket st = Some sk" and "set (write_outcomes st) \<subseteq> {None}"
  shows "processItemsInQueue opts st =
           st\<lparr>queue := [], effects := effects st @ concat (map (sent opts) (queue st)),
              write_outcomes := drop (length (queue st)) (write_outcomes st)\<rparr>"
  using assms
proof (induction "queue st" arbitrary: st)
  case Nil
  then show ?case
    by (subst processItemsInQueue.simps) (cases st, simp)
next
  case (Cons item rest)
  let ?line = "createLogLine item opts"
  let ?st1 = "emit (NLog ?line) (st\<lparr>queue := rest\<rparr>)"
  let ?st2 = "st\<lparr>queue := rest, effects := effects st @ sent opts item,
                   write_outcomes := tl (write_outcomes st)\<rparr>"
  have q: "queue st = item # rest"
    using Cons.hyps(2) by simp
  have w: "socket_write ?line ?st1 = (None, ?st2)"
    using Cons.prems
    by (cases "write_outcomes st"; cases st) (simp_all add: socket_write_def emit_def sent_def)
  have step: "processItemsInQueue opts st = processItemsInQueue opts ?st2"
    by (subst processItemsInQueue.simps) (simp add: q Let_def w)
  have ih: "processItemsInQueue opts ?st2 =
              ?st2\<lparr>queue := [], effects := effects ?st2 @ concat (map (sent opts) (queue ?st2)),
                   write_outcomes := drop (length (queue ?st2)) (write_outcomes ?st2)\<rparr>"
  proof (rule Cons.hyps(1))
    show "rest = queue ?st2" by simp
    show "socket ?st2 = Some sk" using Cons.prems by simp
    show "set (write_outcomes ?st2) \<subseteq> {None}"
      using Cons.prems(2) by (cases "write_outcomes st") auto
  qed
  show ?case
    unfolding step ih using q by (cases st) (simp add: drop_Suc)
qed

lemma drain_all_fields:
  assumes "socket st = Some sk" and "set (write_outcomes st) \<subseteq> {None}"
  shows "queue (processItemsInQueue opts st) = []"
    and "effects (processItemsInQueue opts st) = effects st @ concat (map (sent opts) (queue st))"
    and "socket (processItemsInQueue opts st) = socket st"
    and "connectingPhase (processItemsInQueue opts st) = connectingPhase st"
    and "closingPhase (processItemsInQueue opts st) = closingPhase st"
    and "end_outcomes (processItemsInQueue opts st) = end_outcomes st"
  by (simp_all add: drain_all [OF assms])

text \<open>
  When the writes of the entries \<open>pre\<close> return and the write of \<open>item\<close> raises \<open>e\<close>,
  the drain stops there.
\<close>

lemma drain_fail:
  assumes "queue st = pre @ item # rest" and "socket st = Some sk"
    and "write_outcomes st = replicate (length pre) None @ Some e # ws"
  shows "processItemsInQueue opts st =
           (closeSocket (st\<lparr>queue := item # rest,
                           effects := effects st @ concat (map (sent opts) pre)
                                      @ [Emit (NLog (createLogLine item opts)), Emit (NError e)],
                           write_outcomes := ws\<rparr>))\<lparr>connectingPhase := Some DISCONNECTED\<rparr>"
  using assms
proof (induction pre arbitrary: st)
  case Nil
  then show ?case
    by (subst processItemsInQueue.simps, cases st) (simp add: Let_def socket_write_def emit_def)
next
  case (Cons p pre)
  let ?line = "createLogLine p opts"
  let ?st1 = "emit (NLog ?line) (st\<lparr>queue := pre @ item # rest\<rparr>)"
  let ?st2 = "st\<lparr>queue := pre @ item # rest, effects := effects st @ sent opts p,
                   write_outcomes := replicate (length pre) None @ Some e # ws\<rparr>"
  have w: "socket_write ?line ?st1 = (None, ?st2)"
    using Cons.prems by (cases st) (simp add: socket_write_def emit_def sent_def)
  have step: "processItemsInQueue opts st = processItemsInQueue opts ?st2"
    using Cons.prems(1) by (subst processItemsInQueue.simps) (simp add: Let_def w)
  have ih: "processItemsInQueue opts ?st2 =
           (closeSocket (?st2\<lparr>queue := item # rest,
                           effects := effects ?st2 @ concat (map (sent opts) pre)
                                      @ [Emit (NLog (createLogLine item opts)), Emit (NError e)],
                           write_outcomes := ws\<rparr>))\<lparr>connectingPhase := Some DISCONNECTED\<rparr>"
    by (rule Cons.IH) (use Cons.prems in simp_all)
  show ?case
    unfolding step ih by (cases st) simp
qed

text \<open>
  Without a socket the first write is a \<open>TypeError\<close>: it is reported, the item stays at
  the front, and the phase is \<open>DISCONNECTED\<close>.
\<close>

lemma drain_without_socket:
  assumes "queue st = item # rest" and "socket st = None"
  shows "processItemsInQueue opts st =
           (emit (NError TypeError) (emit (NLog (createLogLine item opts)) st))
             \<lparr>connectingPhase := Some DISCONNECTED\<rparr>"
  using assms
  by (subst processItemsInQueue.simps, cases st)
    (simp add: Let_def socket_write_def closeSocket_def emit_def)

text \<open>
  C2. If, during a drain, the writes of the entries \<open>pre\<close> return and the write of the
  entry \<open>item\<close>, then at the front of the queue, raises \<open>e\<close>, then afterwards \<open>item\<close> is
  at the front again, followed by the entries \<open>rest\<close> behind it in their order; \<open>e\<close> is
  reported once, right after the announcement of the line; the socket is closed (which
  reports its own error if \<open>socket.end()\<close> raises); the phase is \<open>DISCONNECTED\<close>; and
  nothing but the lines of \<open>pre\<close> has been written.
\<close>

theorem write_failure_requeues_front:
  assumes "queue st = pre @ item # rest" and "socket st = Some sk"
    and "write_outcomes st = replicate (length pre) None @ Some e # ws"
  shows
    "queue (processItemsInQueue opts st) = item # rest
     \<and> effects (processItemsInQueue opts st) =
         effects st @ concat (map (sent opts) pre)
         @ [Emit (NLog (createLogLine item opts)), Emit (NError e)]
         @ (case end_outcomes st of Some e' # os \<Rightarrow> [Emit (NError e')] | _ \<Rightarrow> [SocketEnd])
     \<and> written (effects (processItemsInQueue opts st)) =
         written (effects st) @ map (\<lambda>i. createLogLine i opts) pre
     \<and> socket (processItemsInQueue opts st) = None
     \<and> connectingPhase (processItemsInQueue opts st) = Some DISCONNECTED
     \<and> closingPhase (processItemsInQueue opts st) = closingPhase st"
  using assms(2)
  by (simp add: drain_fail [OF assms] closing_effects_def split: list.splits option.splits)

theorem write_failure_requeues_front_witness:
  "queue draining_example = [[''A'']] @ [''B''] # [[''C'']]
   \<and> socket draining_example = Some \<lparr>authorized = False, authorizationError = []\<rparr>
   \<and> write_outcomes draining_example = replicate (length [[''A'']]) None @ Some (Error ''EPIPE'') # []
   \<and> queue (processItemsInQueue (defaults ''tok'') draining_example) = [[''B''], [''C'']]
   \<and> effects (processItemsInQueue (defaults ''tok'') draining_example) =
       [Emit (NLog (createLogLine [''A''] (defaults ''tok''))),
        SocketWrite (createLogLine [''A''] (defaults ''tok'')),
        Emit (NLog (createLogLine [''B''] (defaults ''tok''))),
        Emit (NError (Error ''EPIPE'')), SocketEnd]
   \<and> socket (processItemsInQueue (defaults ''tok'') draining_example) = None
   \<and> connectingPhase (processItemsInQueue (defaults ''tok'') draining_example) = Some DISCONNECTED"
proof -
  have a: "queue draining_example = [[''A'']] @ [''B''] # [[''C'']]"
    by (simp add: draining_example_def)
  have b: "socket draining_example = Some \<lparr>authorized = False, authorizationError = []\<rparr>"
    by (simp add: draining_example_def)
  have c: "write_outcomes draining_example =
             replicate (length [[''A'']]) None @ Some (Error ''EPIPE'') # []"
    by (simp add: draining_example_def)
  have d: "effects draining_example = []" "end_outcomes draining_example = []"
    by (simp_all add: draining_example_def)
  note th = write_failure_requeues_front [OF a b c, of "defaults ''tok''"]
  have e: "queue (processItemsInQueue (defaults ''tok'') draining_example) = [[''B''], [''C'']]"
    using th by simp
  have f: "effects (processItemsInQueue (defaults ''tok'') draining_example) =
       [Emit (NLog (createLogLine [''A''] (defaults ''tok''))),
        SocketWrite (createLogLine [''A''] (defaults ''tok'')),
        Emit (NLog (createLogLine [''B''] (defaults ''tok''))),
        Emit (NError (Error ''EPIPE'')), SocketEnd]"
    using th by (simp add: d sent_def)
  have g: "socket (processItemsInQueue (defaults ''tok'') draining_example) = None"
    "connectingPhase (processItemsInQueue (defaults ''tok'') draining_example) = Some DISCONNECTED"
    using th by simp_all
  from a b c e f g show ?thesis by blast
qed

section \<open>Connecting\<close>

text \<open>A connection that is established while every write returns.\<close>

lemma handleConnection_success:
  assumes "socket st = Some sk" and "set (write_outcomes st) \<subseteq> {None}"
  shows "queue (handleConnection opts st) = []"
    and "effects (handleConnection opts st) =
           effects st @ concat (map (sent opts) (queue st))
           @ (if closingPhase st \<noteq> None then closing_effects st else [])"
    and "connectingPhase (handleConnection opts st) = Some CONNECTED"
    and "closingPhase (handleConnection opts st) =
           (if closingPhase st \<noteq> None then Some CLOSED else None)"
    and "socket (handleConnection opts st) = (if closingPhase st \<noteq> None then None else socket st)"
proof -
  define s where "s = st\<lparr>connectingPhase := Some CONNECTED\<rparr>"
  have s: "socket s = Some sk" "set (write_outcomes s) \<subseteq> {None}"
    using assms by (simp_all add: s_def)
  note d0 = drain_all_fields [OF s, of opts]
  have sf: "queue s = queue st" "effects s = effects st" "socket s = socket st"
    "connectingPhase s = Some CONNECTED" "closingPhase s = closingPhase st"
    "end_outcomes s = end_outcomes st"
    by (simp_all add: s_def)
  note d = d0 [unfolded sf]
  have ce: "closing_effects (processItemsInQueue opts s) = closing_effects st"
    by (rule closing_effects_eq) (simp_all add: d)
  have hc: "handleConnection opts st =
      (if closingPhase (processItemsInQueue opts s) \<noteq> None
       then (closeSocket (processItemsInQueue opts s))\<lparr>closingPhase := Some CLOSED\<rparr>
       else processItemsInQueue opts s)"
    by (simp add: handleConnection_def Let_def s_def)
  show "queue (handleConnection opts st) = []"
    by (auto simp: hc d)
  show "effects (handleConnection opts st) =
           effects st @ concat (map (sent opts) (queue st))
           @ (if closingPhase st \<noteq> None then closing_effects st else [])"
    by (auto simp: hc d ce)
  show "connectingPhase (handleConnection opts st) = Some CONNECTED"
    by (auto simp: hc d)
  show "closingPhase (handleConnection opts st) =
           (if closingPhase st \<noteq> None then Some CLOSED else None)"
    by (auto simp: hc d)
  show "socket (handleConnection opts st) = (if closingPhase st \<noteq> None then None else socket st)"
    by (auto simp: hc d)
qed

lemma consume_while_connecting:
  assumes "closingPhase st = None" and "connectingPhase st = Some CONNECTING"
  shows "consume opts items st = Inr (st\<lparr>queue := queue st @ [items]\<rparr>)"
  using assms by (simp add: consume_def Let_def)

lemma consume_all_while_connecting:
  assumes "closingPhase st = None" and "connectingPhase st = Some CONNECTING"
  shows "consume_all opts es st = Inr (st\<lparr>queue := queue st @ es\<rparr>)"
  using assms
proof (induction es arbitrary: st)
  case Nil
  then show ?case by simp
next
  case (Cons item es)
  have "consume_all opts (item # es) st = consume_all opts es (st\<lparr>queue := queue st @ [item]\<rparr>)"
    using Cons.prems by (simp add: consume_while_connecting)
  also have "\<dots> = Inr (st\<lparr>queue := queue st @ [item], queue := (queue st @ [item]) @ es\<rparr>)"
    using Cons.prems by (subst Cons.IH) simp_all
  finally show ?case by simp
qed

lemma connect_fields [simp]:
  "queue (connect opts st) = queue st"
  "closingPhase (connect opts st) = closingPhase st"
  "connectingPhase (connect opts st) = Some CONNECTING"
  "socket (connect opts st) = Some \<lparr>authorized = False, authorizationError = []\<rparr>"
  "write_outcomes (connect opts st) = write_outcomes st"
  "end_outcomes (connect opts st) = end_outcomes st"
  "length (filter opens (effects (connect opts st))) = Suc (length (filter opens (effects st)))"
  "written (effects (connect opts st)) = written (effects st)"
  by (simp_all add: connect_def Let_def emit_def)

lemma consume_first:
  assumes "closingPhase st = None"
    and "connectingPhase st = None \<or> connectingPhase st = Some DISCONNECTED"
  shows "consume opts items st = Inr (connect opts (st\<lparr>queue := queue st @ [items]\<rparr>))"
  using assms by (auto simp: consume_def Let_def)

text \<open>
  C3. Take a transport that is not closing and whose phase is \<open>DISCONNECTED\<close> or still
  unset, and any non-empty sequence \<open>es\<close> of entries consumed one after the other.
  None of the calls raises; afterwards the phase is \<open>CONNECTING\<close>, the entries are at the
  end of the queue in their order, and exactly one socket has been opened; a further
  \<open>consume\<close> only appends. When the connection is then established (and no write
  raises), the phase is \<open>CONNECTED\<close> and the whole queue has been written, first in
  first out.
\<close>

theorem consume_connects_once_then_fifo:
  assumes "closingPhase st = None"
    and "connectingPhase st = None \<or> connectingPhase st = Some DISCONNECTED"
    and "es \<noteq> []"
    and "set (write_outcomes st) \<subseteq> {None}"
  shows
    "\<exists>st'. consume_all opts es st = Inr st'
        \<and> connectingPhase st' = Some CONNECTING
        \<and> queue st' = queue st @ es
        \<and> length (filter opens (effects st')) = Suc (length (filter opens (effects st)))
        \<and> written (effects st') = written (effects st)
        \<and> consume opts x st' = Inr (st'\<lparr>queue := queue st' @ [x]\<rparr>)
        \<and> connectingPhase (handleConnection opts st') = Some CONNECTED
        \<and> queue (handleConnection opts st') = []
        \<and> effects (handleConnection opts st') =
            effects st' @ concat (map (sent opts) (queue st @ es))
        \<and> written (effects (handleConnection opts st')) =
            written (effects st) @ map (\<lambda>i. createLogLine i opts) (queue st @ es)"
proof -
  obtain item rest where es: "es = item # rest"
    using assms(3) by (cases es) auto
  define st' where "st' = (connect opts (st\<lparr>queue := queue st @ [item]\<rparr>))
                            \<lparr>queue := queue (connect opts (st\<lparr>queue := queue st @ [item]\<rparr>)) @ rest\<rparr>"
  have all: "consume_all opts es st = Inr st'"
    using assms(1)
    by (simp add: es consume_first [OF assms(1,2)] consume_all_while_connecting st'_def)
  have f: "closingPhase st' = None" "connectingPhase st' = Some CONNECTING"
    "queue st' = queue st @ es"
    "length (filter opens (effects st')) = Suc (length (filter opens (effects st)))"
    "written (effects st') = written (effects st)"
    "socket st' = Some \<lparr>authorized = False, authorizationError = []\<rparr>"
    "set (write_outcomes st') \<subseteq> {None}"
    using assms(1,4) by (simp_all add: st'_def es)
  note hc = handleConnection_success [OF f(6,7), of opts]
  have cons: "consume opts x st' = Inr (st'\<lparr>queue := queue st' @ [x]\<rparr>)"
    using f(1,2) by (rule consume_while_connecting)
  have w: "written (effects (handleConnection opts st')) =
            written (effects st) @ map (\<lambda>i. createLogLine i opts) (queue st @ es)"
    by (simp add: hc f)
  show ?thesis
    using all f cons hc w by (intro exI [where x = st']) simp
qed

theorem consume_connects_once_then_fifo_witness:
  "closingPhase (new_transport [] []) = None
   \<and> (connectingPhase (new_transport [] []) = None
      \<or> connectingPhase (new_transport [] []) = Some DISCONNECTED)
   \<and> [[''A''], [''B'']] \<noteq> []
   \<and> set (write_outcomes (new_transport [] [])) \<subseteq> {None}
   \<and> (\<exists>st'. consume_all (defaults ''tok'') [[''A''], [''B'']] (new_transport [] []) = Inr st'
         \<and> connectingPhase st' = Some CONNECTING
         \<and> queue st' = [[''A''], [''B'']]
         \<and> length (filter opens (effects st')) = 1
         \<and> queue (handleConnection (defaults ''tok'') st') = []
         \<and> written (effects (handleConnection (defaults ''tok'') st')) =
             [createLogLine [''A''] (defaults ''tok''), createLogLine [''B''] (defaults ''tok'')])"
proof -
  have a: "closingPhase (new_transport [] []) = None"
    by (simp add: new_transport_def)
  have b: "connectingPhase (new_transport [] []) = None
      \<or> connectingPhase (new_transport [] []) = Some DISCONNECTED"
    by (simp add: new_transport_def)
  have c: "[[''A''], [''B'']] \<noteq> ([] :: entry list)"
    by simp
  have d: "set (write_outcomes (new_transport [] [])) \<subseteq> {None}"
    by (simp add: new_transport_def)
  have e: "queue (new_transport [] []) = []" "effects (new_transport [] []) = []"
    by (simp_all add: new_transport_def)
  note th = consume_connects_once_then_fifo [OF a b c d, of "defaults ''tok''" "[]"]
  have "\<exists>st'. consume_all (defaults ''tok'') [[''A''], [''B'']] (new_transport [] []) = Inr st'
         \<and> connectingPhase st' = Some CONNECTING
         \<and> queue st' = [[''A''], [''B'']]
         \<and> length (filter opens (effects st')) = 1
         \<and> queue (handleConnection (defaults ''tok'') st') = []
         \<and> written (effects (handleConnection (defaults ''tok'') st')) =
             [createLogLine [''A''] (defaults ''tok''), createLogLine [''B''] (defaults ''tok'')]"
    using th
    apply (elim exE conjE)
    subgoal for st'
      by (rule exI [where x = st']) (simp add: e)
    done
  with a b c d show ?thesis by blast
qed

section \<open>The socket of a connection attempt\<close>

lemma socket_write_frame:
  "closingPhase (snd (socket_write l st)) = closingPhase st"
  "connectingPhase (snd (socket_write l st)) = connectingPhase st"
  "socket (snd (socket_write l st)) = socket st"
  "end_outcomes (snd (socket_write l st)) = end_outcomes st"
  "\<exists>ext. effects (snd (socket_write l st)) = effects st @ ext"
  by (simp_all add: socket_write_def split: option.splits list.splits)

text \<open>
  A drain never touches the closing phase and only adds effects; it either keeps the
  phase and the socket, or ends \<open>DISCONNECTED\<close> without a socket.
\<close>

lemma drain_frame:
  "closingPhase (processItemsInQueue opts st) = closingPhase st
   \<and> (\<exists>ext. effects (processItemsInQueue opts st) = effects st @ ext)
   \<and> (connectingPhase (processItemsInQueue opts st) = connectingPhase st
        \<and> socket (processItemsInQueue opts st) = socket st
      \<or> connectingPhase (processItemsInQueue opts st) = Some DISCONNECTED
        \<and> socket (processItemsInQueue opts st) = None)"
proof (induction opts st rule: processItemsInQueue.induct)
  case (1 opts st)
  show ?case
  proof (cases "queue st")
    case Nil
    then show ?thesis
      by (subst (1 2 3 4 5 6) processItemsInQueue.simps) simp
  next
    case (Cons item rest)
    define logLine where "logLine = createLogLine item opts"
    define st1 where "st1 = emit (NLog logLine) (st\<lparr>queue := rest\<rparr>)"
    obtain x st2 where w: "socket_write logLine st1 = (x, st2)"
      by (cases "socket_write logLine st1")
    have st2: "st2 = snd (socket_write logLine st1)"
      by (simp add: w)
    have f1: "closingPhase st1 = closingPhase st" "connectingPhase st1 = connectingPhase st"
      "socket st1 = socket st" "effects st1 = effects st @ [Emit (NLog logLine)]"
      by (simp_all add: st1_def emit_def)
    have f2: "closingPhase st2 = closingPhase st" "connectingPhase st2 = connectingPhase st"
      "socket st2 = socket st"
      by (simp_all add: st2 socket_write_frame f1)
    obtain ext where ext: "effects st2 = effects st @ ext"
      using socket_write_frame(5) [of logLine st1] by (auto simp: st2 f1)
    show ?thesis
    proof (cases x)
      case None
      have step: "processItemsInQueue opts st = processItemsInQueue opts st2"
        by (subst processItemsInQueue.simps)
          (simp add: Cons Let_def logLine_def [symmetric] st1_def [symmetric] w None)
      have ih: "closingPhase (processItemsInQueue opts st2) = closingPhase st2
         \<and> (\<exists>ext. effects (processItemsInQueue opts st2) = effects st2 @ ext)
         \<and> (connectingPhase (processItemsInQueue opts st2) = connectingPhase st2
              \<and> socket (processItemsInQueue opts st2) = socket st2
            \<or> connectingPhase (processItemsInQueue opts st2) = Some DISCONNECTED
              \<and> socket (processItemsInQueue opts st2) = None)"
        using "1.IH" [OF Cons logLine_def st1_def w [symmetric] None] .
      show ?thesis
        unfolding step using ih by (auto simp: f2 ext)
    next
      case (Some e)
      have step: "processItemsInQueue opts st =
          (closeSocket ((emit (NError e) st2)\<lparr>queue := item # queue st2\<rparr>))
             \<lparr>connectingPhase := Some DISCONNECTED\<rparr>"
        by (subst processItemsInQueue.simps)
          (simp add: Cons Let_def logLine_def [symmetric] st1_def [symmetric] w Some)
      show ?thesis
        unfolding step by (simp add: emit_def f2 ext)
    qed
  qed
qed

lemma drain_not_connecting:
  "connectingPhase st \<noteq> Some CONNECTING \<Longrightarrow>
   connectingPhase (processItemsInQueue opts st) \<noteq> Some CONNECTING"
  using drain_frame [of opts st] by auto

lemma connecting_inv_step: "connecting_inv st \<Longrightarrow> connecting_inv (step opts i st)"
proof (cases i)
  case (Consume items)
  assume "connecting_inv st"
  then show ?thesis
    using drain_not_connecting [of "st\<lparr>queue := queue st @ [items]\<rparr>" opts]
    by (auto simp: Consume consume_def Let_def connecting_inv_def)
next
  case End
  assume "connecting_inv st"
  then show ?thesis
    using drain_not_connecting [of "st\<lparr>closingPhase := Some CLOSING\<rparr>" opts]
    by (auto simp: End transport_end_def Let_def connecting_inv_def emit_def console_log_def)
next
  case SocketConnect
  show ?thesis
    using drain_not_connecting [of "st\<lparr>connectingPhase := Some CONNECTED\<rparr>" opts]
    by (auto simp: SocketConnect handleConnection_def Let_def connecting_inv_def)
next
  case (SocketSecureConnect a err)
  assume "connecting_inv st"
  then show ?thesis
    using drain_not_connecting
      [of "st\<lparr>socket := map_option (\<lambda>sk. sk\<lparr>authorized := a, authorizationError := err\<rparr>) (socket st),
              connectingPhase := Some CONNECTED\<rparr>" opts]
    by (auto simp: SocketSecureConnect handleSecureConnection_def handleConnection_def
        handleError_def Let_def connecting_inv_def split: option.splits)
next
  case (SocketError e)
  show ?thesis
    by (simp add: SocketError handleError_def connecting_inv_def)
next
  case SocketClose
  show ?thesis
    by (simp add: SocketClose handleClose_def connecting_inv_def)
qed

lemma connecting_inv_run: "connecting_inv st \<Longrightarrow> connecting_inv (run opts ins st)"
  by (induction ins arbitrary: st) (simp_all add: connecting_inv_step)

text \<open>
  Whatever has happened to a transport since its creation: while it is connecting
  with entries pending, it holds the socket of the attempt.
\<close>

lemma connecting_pending_has_socket:
  assumes "st = run opts ins (new_transport ws es)"
    and "connectingPhase st = Some CONNECTING" and "queue st \<noteq> []"
  shows "socket st \<noteq> None"
proof -
  have "connecting_inv (new_transport ws es)"
    by (simp add: connecting_inv_def new_transport_def)
  then have "connecting_inv st"
    unfolding assms(1) by (rule connecting_inv_run)
  then show ?thesis
    using assms(2,3) by (auto simp: connecting_inv_def)
qed

lemma pending_example_fields:
  "connectingPhase pending_example = Some CONNECTING"
  "queue pending_example = [[''A''], [''B'']]"
  "write_outcomes pending_example = []"
  "end_outcomes pending_example = []"
  "closingPhase pending_example = None"
  "socket pending_example = Some \<lparr>authorized = False, authorizationError = []\<rparr>"
  "effects pending_example =
     [Emit (NConnect ''api.logentries.com'' 10000 ''tok''), OpenPlain 10000 ''api.logentries.com'']"
  by (simp_all add: pending_example_def consume_def connect_def Let_def new_transport_def
      defaults_def emit_def DEFAULT_LE_HOST_def DEFAULT_LE_PORT_def)

lemma refused_example_fields:
  "effects refused_example =
     [Emit (NConnect ''api.logentries.com'' 10000 ''tok''), OpenPlain 10000 ''api.logentries.com'',
      Emit (NError (Error ''ECONNREFUSED'')), SocketEnd]"
  "socket refused_example = None"
  "closingPhase refused_example = None"
  "queue refused_example = [[''A'']]"
  "connectingPhase refused_example = Some DISCONNECTED"
  by (simp_all add: refused_example_def consume_def connect_def Let_def new_transport_def
      defaults_def emit_def DEFAULT_LE_HOST_def DEFAULT_LE_PORT_def handleError_def closeSocket_def)


section \<open>Ending\<close>

text \<open>
  C4. Take a transport in any state it can reach, in the phase \<open>CONNECTING\<close> with
  entries pending. \<open>end()\<close> then only sets the closing phase to \<open>CLOSING\<close>, prints its
  line and notifies \<open>end\<close>: the queue and the socket are untouched, nothing is written
  and nothing is closed. When the connection is established afterwards (and no write
  raises), every pending entry is written, first in first out, then the socket is
  closed, and the closing phase is \<open>CLOSED\<close>.
\<close>

theorem end_while_connecting_defers_close:
  assumes "st = run opts ins (new_transport ws es)"
    and "connectingPhase st = Some CONNECTING" and "queue st \<noteq> []"
    and "set (write_outcomes st) \<subseteq> {None}"
  shows
    "transport_end opts st =
       st\<lparr>closingPhase := Some CLOSING,
          effects := effects st @ [ConsoleLog ''end while still connecting and data pending'',
                                   Emit NEnd]\<rparr>
     \<and> queue (handleConnection opts (transport_end opts st)) = []
     \<and> effects (handleConnection opts (transport_end opts st)) =
         effects (transport_end opts st) @ concat (map (sent opts) (queue st))
         @ (case end_outcomes st of Some e # os \<Rightarrow> [Emit (NError e)] | _ \<Rightarrow> [SocketEnd])
     \<and> written (effects (handleConnection opts (transport_end opts st))) =
         written (effects st) @ map (\<lambda>i. createLogLine i opts) (queue st)
     \<and> socket (handleConnection opts (transport_end opts st)) = None
     \<and> closingPhase (handleConnection opts (transport_end opts st)) = Some CLOSED"
proof -
  obtain sk where sk: "socket st = Some sk"
    using connecting_pending_has_socket [OF assms(1-3)] by auto
  define st' where "st' = transport_end opts st"
  have e: "st' = st\<lparr>closingPhase := Some CLOSING,
          effects := effects st @ [ConsoleLog ''end while still connecting and data pending'',
                                   Emit NEnd]\<rparr>"
    using assms(2,3) sk
    by (simp add: st'_def transport_end_def Let_def console_log_def emit_def)
  have f: "socket st' = Some sk" "set (write_outcomes st') \<subseteq> {None}"
    "closingPhase st' = Some CLOSING" "queue st' = queue st"
    "effects st' = effects st @ [ConsoleLog ''end while still connecting and data pending'',
                                   Emit NEnd]"
    "closing_effects st' =
       (case end_outcomes st of Some e # os \<Rightarrow> [Emit (NError e)] | _ \<Rightarrow> [SocketEnd])"
    using sk assms(4) by (simp_all add: e closing_effects_def)
  note hc = handleConnection_success [OF f(1,2), of opts]
  have c2: "queue (handleConnection opts st') = []"
    by (simp add: hc)
  have c3: "effects (handleConnection opts st') =
         effects st' @ concat (map (sent opts) (queue st))
         @ (case end_outcomes st of Some e # os \<Rightarrow> [Emit (NError e)] | _ \<Rightarrow> [SocketEnd])"
    by (simp add: hc f(3,4,6))
  have c4: "written (effects (handleConnection opts st')) =
         written (effects st) @ map (\<lambda>i. createLogLine i opts) (queue st)"
    by (simp add: hc f(3,4,5))
  have c5: "socket (handleConnection opts st') = None"
    by (simp add: hc f(3))
  have c6: "closingPhase (handleConnection opts st') = Some CLOSED"
    by (simp add: hc f(3))
  show ?thesis
    unfolding st'_def [symmetric]
    using e c2 c3 c4 c5 c6 by blast
qed

theorem end_while_connecting_defers_close_witness:
  "pending_example = run (defaults ''tok'') [Consume [''A''], Consume [''B'']] (new_transport [] [])
   \<and> connectingPhase pending_example = Some CONNECTING
   \<and> queue pending_example \<noteq> []
   \<and> set (write_outcomes pending_example) \<subseteq> {None}
   \<and> closingPhase (transport_end (defaults ''tok'') pending_example) = Some CLOSING
   \<and> queue (transport_end (defaults ''tok'') pending_example) = [[''A''], [''B'']]
   \<and> effects (transport_end (defaults ''tok'') pending_example) =
       effects pending_example
       @ [ConsoleLog ''end while still connecting and data pending'', Emit NEnd]
   \<and> written (effects (handleConnection (defaults ''tok'')
                          (transport_end (defaults ''tok'') pending_example))) =
       [createLogLine [''A''] (defaults ''tok''), createLogLine [''B''] (defaults ''tok'')]
   \<and> socket (handleConnection (defaults ''tok'')
                (transport_end (defaults ''tok'') pending_example)) = None
   \<and> closingPhase (handleConnection (defaults ''tok'')
                      (transport_end (defaults ''tok'') pending_example)) = Some CLOSED"
proof -
  have a: "pending_example =
      run (defaults ''tok'') [Consume [''A''], Consume [''B'']] (new_transport [] [])"
    by (simp add: pending_example_def)
  have b: "connectingPhase pending_example = Some CONNECTING"
    by (simp add: pending_example_fields)
  have c: "queue pending_example \<noteq> []"
    by (simp add: pending_example_fields)
  have d: "set (write_outcomes pending_example) \<subseteq> {None}"
    by (simp add: pending_example_fields)
  note th = end_while_connecting_defers_close [OF a b c d]
  have e: "transport_end (defaults ''tok'') pending_example =
       pending_example\<lparr>closingPhase := Some CLOSING,
          effects := effects pending_example
            @ [ConsoleLog ''end while still connecting and data pending'', Emit NEnd]\<rparr>"
    using th by blast
  have f: "closingPhase (transport_end (defaults ''tok'') pending_example) = Some CLOSING"
    "queue (transport_end (defaults ''tok'') pending_example) = [[''A''], [''B'']]"
    "effects (transport_end (defaults ''tok'') pending_example) =
       effects pending_example
       @ [ConsoleLog ''end while still connecting and data pending'', Emit NEnd]"
    by (simp_all add: e pending_example_fields)
  have g: "written (effects (handleConnection (defaults ''tok'')
                          (transport_end (defaults ''tok'') pending_example))) =
       written (effects pending_example)
       @ map (\<lambda>i. createLogLine i (defaults ''tok'')) (queue pending_example)"
    "socket (handleConnection (defaults ''tok'')
                (transport_end (defaults ''tok'') pending_example)) = None"
    "closingPhase (handleConnection (defaults ''tok'')
                      (transport_end (defaults ''tok'') pending_example)) = Some CLOSED"
    using th by blast+
  have h: "written (effects (handleConnection (defaults ''tok'')
                          (transport_end (defaults ''tok'') pending_example))) =
       [createLogLine [''A''] (defaults ''tok''), createLogLine [''B''] (defaults ''tok'')]"
    by (simp add: g(1) pending_example_fields)
  from a b c d f g(2,3) h show ?thesis by blast
qed

text \<open>
  C5, as the code has it. \<open>end()\<close> is a no-op exactly when the transport holds no
  socket at that moment: none has been opened yet, or the last one has been closed
  since. With a socket, \<open>end()\<close> sets the closing phase and its last effect is the \<open>end\<close>
  notification: when entries are pending in the phase \<open>CONNECTING\<close>, the phase is
  \<open>CLOSING\<close> and the socket, the queue and the written lines are as before; in every
  other case the socket is closed and the phase is \<open>CLOSED\<close>.
\<close>

theorem end_noop_iff_no_socket:
  "(transport_end opts st = st) = (socket st = None)
   \<and> (if socket st = None then closingPhase (transport_end opts st) = closingPhase st
      else (\<exists>mid. effects (transport_end opts st) = effects st @ mid @ [Emit NEnd])
         \<and> (if queue st \<noteq> [] \<and> connectingPhase st = Some CONNECTING
            then closingPhase (transport_end opts st) = Some CLOSING
               \<and> socket (transport_end opts st) = socket st
               \<and> queue (transport_end opts st) = queue st
               \<and> written (effects (transport_end opts st)) = written (effects st)
            else closingPhase (transport_end opts st) = Some CLOSED
               \<and> socket (transport_end opts st) = None))"
proof (cases "socket st")
  case None
  then show ?thesis
    by (simp add: transport_end_def)
next
  case (Some sk)
  define s1 where "s1 = st\<lparr>closingPhase := Some CLOSING\<rparr>"
  obtain ext where ext: "effects (processItemsInQueue opts s1) = effects st @ ext"
    using drain_frame [of opts s1] by (auto simp: s1_def)
  have cl: "closingPhase (processItemsInQueue opts s1) = Some CLOSING"
    using drain_frame [of opts s1] by (simp add: s1_def)
  have eff: "\<exists>mid. effects (transport_end opts st) = effects st @ mid @ [Emit NEnd]"
    using Some ext
    by (auto simp: transport_end_def Let_def emit_def console_log_def s1_def [symmetric],
        auto simp: s1_def)
  have ne: "transport_end opts st \<noteq> st"
  proof
    assume "transport_end opts st = st"
    then have "effects (transport_end opts st) = effects st" by simp
    with eff show False by auto
  qed
  have ph: "if queue st \<noteq> [] \<and> connectingPhase st = Some CONNECTING
            then closingPhase (transport_end opts st) = Some CLOSING
               \<and> socket (transport_end opts st) = socket st
               \<and> queue (transport_end opts st) = queue st
               \<and> written (effects (transport_end opts st)) = written (effects st)
            else closingPhase (transport_end opts st) = Some CLOSED
               \<and> socket (transport_end opts st) = None"
    using Some
    by (auto simp: transport_end_def Let_def emit_def console_log_def)
  show ?thesis
    using Some eff ne ph by simp
qed

theorem end_noop_iff_no_socket_witness:
  "socket refused_example = None
   \<and> transport_end (defaults ''tok'') refused_example = refused_example
   \<and> socket pending_example \<noteq> None
   \<and> transport_end (defaults ''tok'') pending_example \<noteq> pending_example
   \<and> closingPhase (transport_end (defaults ''tok'') pending_example) = Some CLOSING
   \<and> socket (new_transport [] []) = None
   \<and> transport_end (defaults ''tok'') (new_transport [] []) = new_transport [] []"
proof -
  have a: "socket refused_example = None" "socket pending_example \<noteq> None"
    "socket (new_transport [] []) = None"
    by (simp_all add: refused_example_fields pending_example_fields new_transport_def)
  have b: "queue pending_example \<noteq> [] \<and> connectingPhase pending_example = Some CONNECTING"
    by (simp add: pending_example_fields)
  have "transport_end (defaults ''tok'') refused_example = refused_example"
    using end_noop_iff_no_socket [of "defaults ''tok''" refused_example] a(1) by simp
  moreover have "transport_end (defaults ''tok'') pending_example \<noteq> pending_example"
    using end_noop_iff_no_socket [of "defaults ''tok''" pending_example] a(2) by simp
  moreover have "closingPhase (transport_end (defaults ''tok'') pending_example) = Some CLOSING"
    using end_noop_iff_no_socket [of "defaults ''tok''" pending_example] a(2) b by simp
  moreover have "transport_end (defaults ''tok'') (new_transport [] []) = new_transport [] []"
    using end_noop_iff_no_socket [of "defaults ''tok''" "new_transport [] []"] a(3) by simp
  ultimately show ?thesis using a by blast
qed

text \<open>
  A transport consumes an entry and opens a socket; the socket reports an error, so
  the transport closes it. A channel has been opened, yet \<open>end()\<close> is a no-op: the
  closing phase stays unset and no \<open>end\<close> notification is added.
\<close>

theorem end_after_channel_error_counterexample:
  "effects refused_example =
     [Emit (NConnect ''api.logentries.com'' 10000 ''tok''), OpenPlain 10000 ''api.logentries.com'',
      Emit (NError (Error ''ECONNREFUSED'')), SocketEnd]
   \<and> transport_end (defaults ''tok'') refused_example = refused_example
   \<and> closingPhase (transport_end (defaults ''tok'') refused_example) = None"
  by (simp add: refused_example_fields transport_end_def)

section \<open>Secure connections\<close>

text \<open>
  The event itself: in secure mode, when the handshake ends without authorization, the
  step of the transport is \<open>handleError\<close> with the authorization error.
\<close>

lemma step_secure_unauthorized:
  assumes "secure opts" and "socket st = Some sk"
  shows "step opts (SocketSecureConnect False err) st =
           handleError (Error err)
             (st\<lparr>socket := Some (sk\<lparr>authorized := False, authorizationError := err\<rparr>)\<rparr>)"
  using assms by (simp add: handleSecureConnection_def)



end
